theory Spec2Isabelle
  imports Main "HOL-Library.AList"
begin

section \<open>Memory: addresses, nodes and the heap\<close>

text \<open>
  A pointer is an address; \<open>nullptr\<close> is address 0. The heap holds the nodes that are
  currently allocated, as an association list from addresses to nodes. Dereferencing an
  address that is not allocated is undefined behaviour in the source; the model returns
  \<open>None\<close> for it, so every dereference of the source is a checked lookup here.
\<close>

type_synonym addr = nat

abbreviation (input) nullptr :: addr where
  "nullptr \<equiv> 0"

text \<open>\<open>struct Node { T value; Node *next; }\<close>\<close>

record 'a Node =
  node_value :: 'a
  node_next :: addr

type_synonym 'a heap = "(addr \<times> 'a Node) list"

text \<open>
  \<open>new Node(v)\<close>: the allocator returns a non-null address that is not allocated (here
  the one above every allocated address), and the constructor sets \<open>value = v\<close>,
  \<open>next = nullptr\<close>. Allocation failure is not modelled.
\<close>

definition fresh_addr :: "'a heap \<Rightarrow> addr" where
  "fresh_addr h = Suc (fold max (map fst h) 0)"

definition new_Node :: "'a \<Rightarrow> 'a heap \<Rightarrow> addr \<times> 'a heap" where
  "new_Node v h =
     (fresh_addr h, (fresh_addr h, \<lparr>node_value = v, node_next = nullptr\<rparr>) # h)"

text \<open>\<open>p->next = a\<close>\<close>

definition set_next :: "addr \<Rightarrow> addr \<Rightarrow> 'a heap \<Rightarrow> 'a heap option" where
  "set_next p a h =
     (case map_of h p of
        None \<Rightarrow> None
      | Some nd \<Rightarrow> Some (AList.update p (nd\<lparr>node_next := a\<rparr>) h))"

text \<open>\<open>delete p\<close> for a node.\<close>

definition delete_Node :: "addr \<Rightarrow> 'a heap \<Rightarrow> 'a heap" where
  "delete_Node p h = AList.delete p h"

section \<open>The program state\<close>

text \<open>
  \<open>struct Slot { std::atomic<void*> ptr; bool used; }\<close>, constructed as
  \<open>ptr(nullptr), used(false)\<close>.
\<close>

record Slot =
  ptr :: addr
  used :: bool

text \<open>
  The state a call can read or write: the stack object's \<open>head\<close>; the heap; the
  manager's static table \<open>slots\<close> (indices \<open>0 .. MAX_HAZARD_POINTERS - 1\<close>); and, for
  every thread, the thread-local vector \<open>retired\<close> of \<open>HazardPointerManager::retire\<close>.
  The memory is a type parameter, since the manager handles \<open>void*\<close> and frees only
  through the deleter it is given; the stacks use it at \<open>'a heap\<close>.

  \<open>scans\<close> is not program data: every entry into \<open>reclaim\<close> appends the calling
  thread, the retired list it was given and the snapshot of hazard pointers it gathered,
  so that a statement can say whether and when a scan ran.
\<close>

record 'm world =
  head :: addr
  heap :: 'm
  slots :: "nat \<Rightarrow> Slot"
  retired :: "nat \<Rightarrow> addr list"
  scans :: "(nat \<times> addr list \<times> addr set) list"

definition initial_world :: "'m \<Rightarrow> 'm world" where
  "initial_world m =
     \<lparr>head = nullptr, heap = m,
      slots = (\<lambda>i. \<lparr>ptr = nullptr, used = False\<rparr>),
      retired = (\<lambda>t. []), scans = []\<rparr>"

section \<open>StackSingleThreaded\<close>

text \<open>
  \<^verbatim>\<open>void push(const T& v) { Node *n = new Node(v); n->next = head; head = n; }\<close>
\<close>

definition StackSingleThreaded_push :: "'a \<Rightarrow> 'a heap world \<Rightarrow> 'a heap world option" where
  "StackSingleThreaded_push v w =
     (case new_Node v (heap w) of
        (n, h1) \<Rightarrow>
          (case set_next n (head w) h1 of
             None \<Rightarrow> None
           | Some h2 \<Rightarrow> Some (w\<lparr>head := n, heap := h2\<rparr>)))"

text \<open>
  \<^verbatim>\<open>if (!head) return std::nullopt;
  Node *n = head; head = head->next; T val = std::move(n->value); delete n; return val;\<close>
  The result is \<open>None\<close> when \<open>head\<close> dangles, \<open>Some (r, w')\<close> otherwise, where \<open>r\<close> is
  the returned \<open>std::optional<T>\<close>.
\<close>

definition StackSingleThreaded_pop :: "'a heap world \<Rightarrow> ('a option \<times> 'a heap world) option" where
  "StackSingleThreaded_pop w =
     (if head w = nullptr then Some (None, w)
      else
        (case map_of (heap w) (head w) of
           None \<Rightarrow> None
         | Some nd \<Rightarrow>
             Some (Some (node_value nd),
                   w\<lparr>head := node_next nd, heap := delete_Node (head w) (heap w)\<rparr>)))"

section \<open>StackTreiber\<close>

text \<open>
  The calls are modelled as one thread runs them when no other thread writes \<open>head\<close>
  in between; the memory-order arguments then make no difference and are left out.

  \<open>head.compare_exchange_weak(expected, desired)\<close>: given the current value \<open>cur\<close> of
  the atomic, the result is the returned flag, the new value of the atomic and the new
  value of \<open>expected\<close> (passed by reference and overwritten with the current value on
  failure). The weak form may fail although \<open>cur = expected\<close>; \<open>spurious\<close> says
  whether this attempt does.
\<close>

definition compare_exchange_weak ::
  "bool \<Rightarrow> addr \<Rightarrow> addr \<Rightarrow> addr \<Rightarrow> bool \<times> addr \<times> addr" where
  "compare_exchange_weak spurious cur expected desired =
     (if cur = expected \<and> \<not> spurious then (True, desired, expected) else (False, cur, cur))"

text \<open>
  Each call of \<open>push\<close> or \<open>pop\<close> takes the list \<open>sps\<close> of the spurious outcomes of its
  successive CAS attempts; once the list is used up, no further attempt fails spuriously.
\<close>

fun fails_spuriously :: "bool list \<Rightarrow> bool" where
  "fails_spuriously [] = False"
| "fails_spuriously (sp # sps) = sp"

text \<open>
  The loop of \<open>push\<close>, for the node at \<open>n\<close>:
  \<^verbatim>\<open>while (!head.compare_exchange_weak(n->next, n, release, relaxed)) { }\<close>
  A failed attempt has written the current \<open>head\<close> into \<open>n->next\<close>.
\<close>

function push_loop :: "bool list \<Rightarrow> addr \<Rightarrow> 'a heap world \<Rightarrow> 'a heap world option" where
  "push_loop sps n w =
     (case map_of (heap w) n of
        None \<Rightarrow> None
      | Some nd \<Rightarrow>
          (case compare_exchange_weak (fails_spuriously sps) (head w) (node_next nd) n of
             (ok, head', expected') \<Rightarrow>
               if ok then Some (w\<lparr>head := head'\<rparr>)
               else
                 (case set_next n expected' (heap w) of
                    None \<Rightarrow> None
                  | Some h' \<Rightarrow> push_loop (tl sps) n (w\<lparr>heap := h'\<rparr>))))"
  by pat_completeness auto
termination
proof (relation "measure (\<lambda>(sps, n, w).
    2 * length sps + (case map_of (heap w) n of None \<Rightarrow> 0
                      | Some nd \<Rightarrow> if node_next nd = head w then 0 else 1))", goal_cases)
  case 1
  show ?case by simp
next
  case (2 sps n w nd x ok y)
  then show ?case
    by (cases sps) (auto simp: compare_exchange_weak_def set_next_def update_conv' split: if_splits)
qed

declare push_loop.simps [simp del]

text \<open>
  \<^verbatim>\<open>Node *n = new Node(v);
  n->next = head.load(std::memory_order_relaxed);
  while (!head.compare_exchange_weak(n->next, n, ...)) { }\<close>
\<close>

definition StackTreiber_push :: "bool list \<Rightarrow> 'a \<Rightarrow> 'a heap world \<Rightarrow> 'a heap world option" where
  "StackTreiber_push sps v w =
     (case new_Node v (heap w) of
        (n, h1) \<Rightarrow>
          (case set_next n (head w) h1 of
             None \<Rightarrow> None
           | Some h2 \<Rightarrow> push_loop sps n (w\<lparr>heap := h2\<rparr>)))"

text \<open>
  The loop of \<open>pop\<close>:
  \<^verbatim>\<open>while (old) {
      Node *next = old->next;
      if (head.compare_exchange_weak(old, next, acq_rel, relaxed)) {
          T val = std::move(old->value);
          // delete old; // <-- unsafe without safe reclamation
          return val;
      }
      // else old is updated to current head; loop
  }
  return std::nullopt;\<close>
  The node is not deleted. \<open>std::move\<close> leaves in the node whatever the move
  constructor of \<open>T\<close> leaves in its source: \<open>moved_from\<close> of the value (the identity
  for a scalar type).
\<close>

function pop_loop ::
  "bool list \<Rightarrow> ('a \<Rightarrow> 'a) \<Rightarrow> addr \<Rightarrow> 'a heap world \<Rightarrow> ('a option \<times> 'a heap world) option" where
  "pop_loop sps moved_from old w =
     (if old = nullptr then Some (None, w)
      else
        (case map_of (heap w) old of
           None \<Rightarrow> None
         | Some nd \<Rightarrow>
             (case compare_exchange_weak (fails_spuriously sps) (head w) old (node_next nd) of
                (ok, head', old') \<Rightarrow>
                  if ok then
                    Some (Some (node_value nd),
                          w\<lparr>head := head',
                            heap := AList.update old
                                      (nd\<lparr>node_value := moved_from (node_value nd)\<rparr>) (heap w)\<rparr>)
                  else pop_loop (tl sps) moved_from old' w)))"
  by pat_completeness auto
termination
proof (relation "measure (\<lambda>(sps, moved_from, old, w).
    2 * length sps + (if old = head w then 0 else 1))", goal_cases)
  case 1
  show ?case by simp
next
  case (2 sps moved_from old w nd x ok y)
  then show ?case
    by (cases sps) (auto simp: compare_exchange_weak_def split: if_splits)
qed

declare pop_loop.simps [simp del]

text \<open>\<^verbatim>\<open>Node *old = head.load(std::memory_order_relaxed); while (old) ...\<close>\<close>

definition StackTreiber_pop ::
  "bool list \<Rightarrow> ('a \<Rightarrow> 'a) \<Rightarrow> 'a heap world \<Rightarrow> ('a option \<times> 'a heap world) option" where
  "StackTreiber_pop sps moved_from w = pop_loop sps moved_from (head w) w"

section \<open>Sequences of calls by one thread\<close>

text \<open>
  A run stops with \<open>None\<close> at the first call that dereferences an unallocated address.
  \<open>pops\<close> returns the results of the calls in the order they were made.
\<close>

fun pushes_SingleThreaded :: "'a list \<Rightarrow> 'a heap world \<Rightarrow> 'a heap world option" where
  "pushes_SingleThreaded [] w = Some w"
| "pushes_SingleThreaded (v # vs) w =
     (case StackSingleThreaded_push v w of
        None \<Rightarrow> None
      | Some w' \<Rightarrow> pushes_SingleThreaded vs w')"

fun pops_SingleThreaded :: "nat \<Rightarrow> 'a heap world \<Rightarrow> ('a option list \<times> 'a heap world) option" where
  "pops_SingleThreaded 0 w = Some ([], w)"
| "pops_SingleThreaded (Suc k) w =
     (case StackSingleThreaded_pop w of
        None \<Rightarrow> None
      | Some (r, w') \<Rightarrow>
          (case pops_SingleThreaded k w' of
             None \<Rightarrow> None
           | Some (rs, w'') \<Rightarrow> Some (r # rs, w'')))"

text \<open>For the Treiber stack every call comes with the spurious outcomes of its CAS attempts.\<close>

fun pushes_Treiber :: "(bool list \<times> 'a) list \<Rightarrow> 'a heap world \<Rightarrow> 'a heap world option" where
  "pushes_Treiber [] w = Some w"
| "pushes_Treiber ((sps, v) # ps) w =
     (case StackTreiber_push sps v w of
        None \<Rightarrow> None
      | Some w' \<Rightarrow> pushes_Treiber ps w')"

fun pops_Treiber ::
  "('a \<Rightarrow> 'a) \<Rightarrow> bool list list \<Rightarrow> 'a heap world \<Rightarrow> ('a option list \<times> 'a heap world) option" where
  "pops_Treiber moved_from [] w = Some ([], w)"
| "pops_Treiber moved_from (sps # os) w =
     (case StackTreiber_pop sps moved_from w of
        None \<Rightarrow> None
      | Some (r, w') \<Rightarrow>
          (case pops_Treiber moved_from os w' of
             None \<Rightarrow> None
           | Some (rs, w'') \<Rightarrow> Some (r # rs, w'')))"

section \<open>The chain of nodes below \<open>head\<close>\<close>

text \<open>
  \<open>chain h p xs\<close>: following \<open>next\<close> from \<open>p\<close> in the heap \<open>h\<close> visits exactly the
  allocated nodes at the addresses of \<open>xs\<close>, holding the values of \<open>xs\<close>, and then
  reaches \<open>nullptr\<close>.
\<close>

fun chain :: "'a heap \<Rightarrow> addr \<Rightarrow> (addr \<times> 'a) list \<Rightarrow> bool" where
  "chain h p [] = (p = nullptr)"
| "chain h p ((a, v) # xs) =
     (p = a \<and> a \<noteq> nullptr \<and>
      (case map_of h a of
         None \<Rightarrow> False
       | Some nd \<Rightarrow> node_value nd = v \<and> chain h (node_next nd) xs))"

section \<open>HazardPointerManager\<close>

text \<open>
  \<^verbatim>\<open>static constexpr int MAX_HAZARD_POINTERS = 128;
  static constexpr size_t RECLAIM_THRESHOLD = 64;\<close>
\<close>

definition MAX_HAZARD_POINTERS :: nat where
  "MAX_HAZARD_POINTERS = 128"

definition RECLAIM_THRESHOLD :: nat where
  "RECLAIM_THRESHOLD = 64"

text \<open>
  The first loop of \<open>reclaim\<close>:
  \<^verbatim>\<open>for (int i = 0; i < MAX_HAZARD_POINTERS; ++i) {
      void *hp = slots[i].ptr.load(std::memory_order_acquire);
      if (hp) hazards.insert(hp);
  }\<close>
\<close>

definition hazards_snapshot :: "(nat \<Rightarrow> Slot) \<Rightarrow> addr set" where
  "hazards_snapshot sl =
     fold (\<lambda>i hazards. if ptr (sl i) = nullptr then hazards else insert (ptr (sl i)) hazards)
       [0..<MAX_HAZARD_POINTERS] {}"

text \<open>
  \<open>reclaim(retired, deleter)\<close>, called by thread \<open>t\<close> on its own retired list. The
  source gathers the snapshot and ends there: after the loop its body holds only the
  comment \<^verbatim>\<open>// Partition retuired: delete those not in hazards, keep the rest\<close>.
  So the retired list is left as it is and \<open>deleter\<close> is never applied.
\<close>

definition reclaim :: "nat \<Rightarrow> (addr \<Rightarrow> 'm \<Rightarrow> 'm) \<Rightarrow> 'm world \<Rightarrow> 'm world" where
  "reclaim t deleter w =
     (let hazards = hazards_snapshot (slots w)
      in w\<lparr>scans := scans w @ [(t, retired w t, hazards)]\<rparr>)"

text \<open>
  \<^verbatim>\<open>static thread_local std::vector<void*> retired;
  retired.push_back(p);
  if (retired.size() >= RECLAIM_THRESHOLD) { reclaim(retired, deleter); }\<close>
  called by thread \<open>t\<close>.
\<close>

definition retire :: "nat \<Rightarrow> addr \<Rightarrow> (addr \<Rightarrow> 'm \<Rightarrow> 'm) \<Rightarrow> 'm world \<Rightarrow> 'm world" where
  "retire t p deleter w =
     (let w1 = w\<lparr>retired := (retired w)(t := retired w t @ [p])\<rparr>
      in if RECLAIM_THRESHOLD \<le> length (retired w1 t) then reclaim t deleter w1 else w1)"

text \<open>
  \<^verbatim>\<open>static int acquire_slot_index() { }\<close>
  The body is empty: the call reads and writes nothing, and control leaves a function
  declared to return \<open>int\<close> without a return statement, so no index is produced (the
  result \<open>None\<close>; in C++ the behaviour of such a call is undefined).
\<close>

definition acquire_slot_index :: "nat \<Rightarrow> 'm world \<Rightarrow> int option \<times> 'm world" where
  "acquire_slot_index t w = (None, w)"

text \<open>
  A deleter that frees nothing and records the pointer it is applied to: with the memory
  a list of pointers, the list after a call holds, in order, every pointer the deleter
  was invoked on.
\<close>

definition recording_deleter :: "addr \<Rightarrow> addr list \<Rightarrow> addr list" where
  "recording_deleter p called = called @ [p]"

section \<open>Facts about allocation\<close>

lemma fold_max_ge_start: "a \<le> b \<Longrightarrow> a \<le> fold max xs (b::nat)"
  by (induction xs arbitrary: b) (auto simp: max_def)

lemma fold_max_ge_elem: "a \<in> set xs \<Longrightarrow> a \<le> fold max xs (b::nat)"
  by (induction xs arbitrary: b) (auto simp: fold_max_ge_start)

lemma fresh_addr_notin: "fresh_addr h \<notin> fst ` set h"
proof
  assume "fresh_addr h \<in> fst ` set h"
  then have "fresh_addr h \<in> set (map fst h)" by simp
  then have "fresh_addr h \<le> fold max (map fst h) 0" by (rule fold_max_ge_elem)
  then show False by (simp add: fresh_addr_def)
qed

lemma fresh_addr_not_null: "fresh_addr h \<noteq> nullptr"
  by (simp add: fresh_addr_def)

lemma StackSingleThreaded_push_eq:
  "StackSingleThreaded_push v w =
     Some (w\<lparr>head := fresh_addr (heap w),
             heap := (fresh_addr (heap w), \<lparr>node_value = v, node_next = head w\<rparr>) # heap w\<rparr>)"
  by (simp add: StackSingleThreaded_push_def new_Node_def set_next_def)

section \<open>The CAS loops and the chain of nodes\<close>

lemma push_loop_linked:
  "map_of (heap w) n = Some nd \<Longrightarrow> node_next nd = head w \<Longrightarrow>
   push_loop sps n w = Some (w\<lparr>head := n\<rparr>)"
proof (induction sps)
  case Nil
  then show ?case
    by (subst push_loop.simps) (simp add: compare_exchange_weak_def)
next
  case (Cons sp sps)
  have same: "set_next n (head w) (heap w) = Some (heap w)"
    using Cons.prems by (simp add: set_next_def update_triv)
  show ?case
  proof (cases sp)
    case True
    then show ?thesis
      using Cons same by (subst push_loop.simps) (simp add: compare_exchange_weak_def)
  next
    case False
    then show ?thesis
      using Cons.prems by (subst push_loop.simps) (simp add: compare_exchange_weak_def)
  qed
qed

lemma StackTreiber_push_eq:
  "StackTreiber_push sps v w =
     Some (w\<lparr>head := fresh_addr (heap w),
             heap := (fresh_addr (heap w), \<lparr>node_value = v, node_next = head w\<rparr>) # heap w\<rparr>)"
  by (simp add: StackTreiber_push_def new_Node_def set_next_def push_loop_linked)

lemma pop_loop_at_head:
  "head w \<noteq> nullptr \<Longrightarrow> map_of (heap w) (head w) = Some nd \<Longrightarrow>
   pop_loop sps moved_from (head w) w =
     Some (Some (node_value nd),
           w\<lparr>head := node_next nd,
             heap := AList.update (head w) (nd\<lparr>node_value := moved_from (node_value nd)\<rparr>) (heap w)\<rparr>)"
proof (induction sps)
  case Nil
  then show ?case
    by (subst pop_loop.simps) (simp add: compare_exchange_weak_def)
next
  case (Cons sp sps)
  then show ?case
    by (subst pop_loop.simps) (simp add: compare_exchange_weak_def)
qed

lemma pop_loop_null: "pop_loop sps moved_from nullptr w = Some (None, w)"
  by (subst pop_loop.simps) simp

lemma chain_frame:
  "chain h p xs \<Longrightarrow> (\<And>a. a \<in> fst ` set xs \<Longrightarrow> map_of h' a = map_of h a) \<Longrightarrow> chain h' p xs"
proof (induction xs arbitrary: p)
  case Nil
  then show ?case by simp
next
  case (Cons x xs)
  obtain a v where x: "x = (a, v)" by (cases x)
  from Cons.prems(1) x obtain nd where nd: "p = a" "a \<noteq> nullptr" "map_of h a = Some nd"
    "node_value nd = v" "chain h (node_next nd) xs"
    by (auto split: option.splits)
  have "map_of h' a = Some nd" using Cons.prems(2)[of a] x nd by simp
  moreover have "chain h' (node_next nd) xs"
    using Cons.IH[OF nd(5)] Cons.prems(2) by simp
  ultimately show ?case using x nd by simp
qed

lemma chain_allocated: "chain h p xs \<Longrightarrow> fst ` set xs \<subseteq> fst ` set h"
proof (induction xs arbitrary: p)
  case Nil
  then show ?case by simp
next
  case (Cons x xs)
  obtain a v where x: "x = (a, v)" by (cases x)
  from Cons.prems x obtain nd where nd: "map_of h a = Some nd" "chain h (node_next nd) xs"
    by (auto split: option.splits)
  have "(a, nd) \<in> set h" using nd(1) by (rule map_of_SomeD)
  then have "a \<in> fst ` set h" by force
  then show ?case using Cons.IH[OF nd(2)] x by simp
qed

lemma chain_push:
  assumes "chain h p xs" "distinct (map fst xs)"
  shows "chain ((fresh_addr h, \<lparr>node_value = v, node_next = p\<rparr>) # h) (fresh_addr h)
           ((fresh_addr h, v) # xs)
         \<and> distinct (map fst ((fresh_addr h, v) # xs))"
proof -
  have notin: "fresh_addr h \<notin> fst ` set xs"
    using chain_allocated[OF assms(1)] fresh_addr_notin[of h] by blast
  have "chain ((fresh_addr h, \<lparr>node_value = v, node_next = p\<rparr>) # h) p xs"
    using assms(1)
  proof (rule chain_frame)
    fix b assume "b \<in> fst ` set xs"
    then have "b \<noteq> fresh_addr h" using notin by blast
    then show "map_of ((fresh_addr h, \<lparr>node_value = v, node_next = p\<rparr>) # h) b = map_of h b"
      by simp
  qed
  then show ?thesis
    using assms(2) notin by (simp add: fresh_addr_not_null)
qed

lemma chain_pop_delete:
  assumes "chain h p ((a, v) # xs)" "distinct (map fst ((a, v) # xs))"
  shows "\<exists>nd. map_of h p = Some nd \<and> p \<noteq> nullptr \<and> node_value nd = v
           \<and> chain (delete_Node p h) (node_next nd) xs"
proof -
  from assms(1) obtain nd where nd: "p = a" "a \<noteq> nullptr" "map_of h a = Some nd"
    "node_value nd = v" "chain h (node_next nd) xs"
    by (auto split: option.splits)
  have "chain (delete_Node p h) (node_next nd) xs"
    using nd(5)
  proof (rule chain_frame)
    fix b assume "b \<in> fst ` set xs"
    then have "b \<noteq> p" using assms(2) nd(1) by auto
    then show "map_of (delete_Node p h) b = map_of h b"
      by (simp add: delete_Node_def)
  qed
  then show ?thesis using nd by simp
qed

lemma chain_pop_update:
  assumes "chain h p ((a, v) # xs)" "distinct (map fst ((a, v) # xs))"
  shows "\<exists>nd. map_of h p = Some nd \<and> p \<noteq> nullptr \<and> node_value nd = v
           \<and> (\<forall>nd'. chain (AList.update p nd' h) (node_next nd) xs)"
proof -
  from assms(1) obtain nd where nd: "p = a" "a \<noteq> nullptr" "map_of h a = Some nd"
    "node_value nd = v" "chain h (node_next nd) xs"
    by (auto split: option.splits)
  have "chain (AList.update p nd' h) (node_next nd) xs" for nd'
    using nd(5)
  proof (rule chain_frame)
    fix b assume "b \<in> fst ` set xs"
    then have "b \<noteq> p" using assms(2) nd(1) by auto
    then show "map_of (AList.update p nd' h) b = map_of h b"
      by (simp add: update_conv')
  qed
  then show ?thesis using nd by simp
qed

lemma pushes_SingleThreaded_chain:
  "chain (heap w) (head w) xs \<Longrightarrow> distinct (map fst xs) \<Longrightarrow>
   \<exists>w' ys. pushes_SingleThreaded vs w = Some w' \<and> chain (heap w') (head w') ys
     \<and> distinct (map fst ys) \<and> map snd ys = rev vs @ map snd xs"
proof (induction vs arbitrary: w xs)
  case Nil
  then show ?case by auto
next
  case (Cons v vs)
  let ?w = "w\<lparr>head := fresh_addr (heap w),
             heap := (fresh_addr (heap w), \<lparr>node_value = v, node_next = head w\<rparr>) # heap w\<rparr>"
  have "chain (heap ?w) (head ?w) ((fresh_addr (heap w), v) # xs)
        \<and> distinct (map fst ((fresh_addr (heap w), v) # xs))"
    using chain_push[OF Cons.prems, of v] by simp
  from Cons.IH[OF conjunct1[OF this] conjunct2[OF this]]
  show ?case by (simp add: StackSingleThreaded_push_eq)
qed

lemma pushes_Treiber_chain:
  "chain (heap w) (head w) xs \<Longrightarrow> distinct (map fst xs) \<Longrightarrow>
   \<exists>w' ys. pushes_Treiber ps w = Some w' \<and> chain (heap w') (head w') ys
     \<and> distinct (map fst ys) \<and> map snd ys = rev (map snd ps) @ map snd xs"
proof (induction ps arbitrary: w xs)
  case Nil
  then show ?case by auto
next
  case (Cons q ps)
  obtain sps v where q: "q = (sps, v)" by (cases q)
  let ?w = "w\<lparr>head := fresh_addr (heap w),
             heap := (fresh_addr (heap w), \<lparr>node_value = v, node_next = head w\<rparr>) # heap w\<rparr>"
  have "chain (heap ?w) (head ?w) ((fresh_addr (heap w), v) # xs)
        \<and> distinct (map fst ((fresh_addr (heap w), v) # xs))"
    using chain_push[OF Cons.prems, of v] by simp
  from Cons.IH[OF conjunct1[OF this] conjunct2[OF this]]
  show ?case by (simp add: q StackTreiber_push_eq)
qed

lemma pops_SingleThreaded_chain:
  "chain (heap w) (head w) xs \<Longrightarrow> distinct (map fst xs) \<Longrightarrow> k \<le> length xs \<Longrightarrow>
   \<exists>w'. pops_SingleThreaded k w = Some (map Some (take k (map snd xs)), w')"
proof (induction k arbitrary: w xs)
  case 0
  then show ?case by simp
next
  case (Suc k)
  then obtain a v ys where xs: "xs = (a, v) # ys" by (cases xs) auto
  from chain_pop_delete[OF Suc.prems(1,2)[unfolded xs]]
  obtain nd where nd: "map_of (heap w) (head w) = Some nd" "head w \<noteq> nullptr"
    "node_value nd = v" "chain (delete_Node (head w) (heap w)) (node_next nd) ys"
    by blast
  let ?w = "w\<lparr>head := node_next nd, heap := delete_Node (head w) (heap w)\<rparr>"
  have pop: "StackSingleThreaded_pop w = Some (Some v, ?w)"
    using nd by (simp add: StackSingleThreaded_pop_def)
  have "chain (heap ?w) (head ?w) ys" using nd(4) by simp
  moreover have "distinct (map fst ys)" using Suc.prems(2) xs by simp
  moreover have "k \<le> length ys" using Suc.prems(3) xs by simp
  ultimately obtain w' where "pops_SingleThreaded k ?w = Some (map Some (take k (map snd ys)), w')"
    using Suc.IH by blast
  then show ?case using pop xs by simp
qed

lemma pops_Treiber_chain:
  "chain (heap w) (head w) xs \<Longrightarrow> distinct (map fst xs) \<Longrightarrow> length os \<le> length xs \<Longrightarrow>
   \<exists>w'. pops_Treiber moved_from os w = Some (map Some (take (length os) (map snd xs)), w')"
proof (induction os arbitrary: w xs)
  case Nil
  then show ?case by simp
next
  case (Cons sps os)
  then obtain a v ys where xs: "xs = (a, v) # ys" by (cases xs) auto
  from chain_pop_update[OF Cons.prems(1,2)[unfolded xs]]
  obtain nd where nd: "map_of (heap w) (head w) = Some nd" "head w \<noteq> nullptr"
    "node_value nd = v"
    "\<forall>nd'. chain (AList.update (head w) nd' (heap w)) (node_next nd) ys"
    by blast
  let ?w = "w\<lparr>head := node_next nd,
             heap := AList.update (head w) (nd\<lparr>node_value := moved_from (node_value nd)\<rparr>) (heap w)\<rparr>"
  have pop: "StackTreiber_pop sps moved_from w = Some (Some v, ?w)"
    unfolding StackTreiber_pop_def using pop_loop_at_head[OF nd(2,1), of sps moved_from] nd(3) by simp
  have "chain (heap ?w) (head ?w) ys" using spec[OF nd(4)] by simp
  moreover have "distinct (map fst ys)" using Cons.prems(2) xs by simp
  moreover have "length os \<le> length ys" using Cons.prems(3) xs by simp
  ultimately obtain w' where
    "pops_Treiber moved_from os ?w = Some (map Some (take (length os) (map snd ys)), w')"
    using Cons.IH by blast
  then show ?case using pop xs by simp
qed

section \<open>LIFO order\<close>

text \<open>
  C6. One thread pushes \<open>v1, ..., vn\<close> onto an empty stack (\<open>head = nullptr\<close>, in any
  heap) and then pops \<open>n\<close> times: the pops return \<open>vn, ..., v1\<close>, in that order, each
  as a present value. This holds for StackSingleThreaded, and for StackTreiber whatever
  CAS attempts of the pushes (\<open>map fst ps\<close>) and of the pops (\<open>os\<close>) fail spuriously.
\<close>

theorem LIFO_order:
  assumes "head w = nullptr" and "length os = length ps"
  shows "map_option fst (Option.bind (pushes_SingleThreaded vs w) (pops_SingleThreaded (length vs)))
           = Some (map Some (rev vs))
         \<and> map_option fst (Option.bind (pushes_Treiber ps w) (pops_Treiber moved_from os))
           = Some (map Some (rev (map snd ps)))"
proof -
  have empty: "chain (heap w) (head w) []" "distinct (map fst ([] :: (addr \<times> 'a) list))"
    using assms(1) by simp_all
  obtain w1 ys where 1: "pushes_SingleThreaded vs w = Some w1" "chain (heap w1) (head w1) ys"
    "distinct (map fst ys)" "map snd ys = rev vs"
    using pushes_SingleThreaded_chain[OF empty, of vs] by auto
  have "length (map snd ys) = length (rev vs)" using 1(4) by simp
  then have "length vs \<le> length ys" by simp
  from pops_SingleThreaded_chain[OF 1(2,3) this]
  have single: "map_option fst (Option.bind (pushes_SingleThreaded vs w) (pops_SingleThreaded (length vs)))
           = Some (map Some (rev vs))"
    using 1(1,4) by auto
  obtain w2 zs where 2: "pushes_Treiber ps w = Some w2" "chain (heap w2) (head w2) zs"
    "distinct (map fst zs)" "map snd zs = rev (map snd ps)"
    using pushes_Treiber_chain[OF empty, of ps] by auto
  have "length (map snd zs) = length (rev (map snd ps))" using 2(4) by simp
  then have len: "length zs = length ps" by simp
  then have "length os \<le> length zs" using assms(2) by simp
  from pops_Treiber_chain[OF 2(2,3) this, of moved_from]
  have "map_option fst (Option.bind (pushes_Treiber ps w) (pops_Treiber moved_from os))
           = Some (map Some (rev (map snd ps)))"
    using 2(1,4) assms(2) len by auto
  with single show ?thesis by simp
qed

theorem LIFO_order_witness:
  "head (initial_world ([] :: nat heap)) = nullptr
   \<and> length [[], [True], [False]] = length [([], 1::nat), ([True, True], 2), ([False], 3)]
   \<and> map_option fst (Option.bind (pushes_SingleThreaded [1::nat, 2, 3] (initial_world []))
        (pops_SingleThreaded (length [1::nat, 2, 3]))) = Some [Some 3, Some 2, Some 1]
   \<and> map_option fst (Option.bind
        (pushes_Treiber [([], 1::nat), ([True, True], 2), ([False], 3)] (initial_world []))
        (pops_Treiber id [[], [True], [False]])) = Some [Some 3, Some 2, Some 1]"
proof -
  have h: "head (initial_world ([] :: nat heap)) = nullptr" by (simp add: initial_world_def)
  have l: "length [[], [True], [False]] = length [([], 1::nat), ([True, True], 2), ([False], 3)]"
    by simp
  show ?thesis
    using h l LIFO_order[OF h l, of "[1, 2, 3]" id] by simp
qed

section \<open>Pop on an empty stack\<close>

lemma StackTreiber_pop_empty:
  "head w = nullptr \<Longrightarrow> StackTreiber_pop sps moved_from w = Some (None, w)"
  by (simp add: StackTreiber_pop_def pop_loop_null)

lemma StackSingleThreaded_pop_empty:
  "head w = nullptr \<Longrightarrow> StackSingleThreaded_pop w = Some (None, w)"
  by (simp add: StackSingleThreaded_pop_def)

lemma pops_Treiber_empty:
  "head w = nullptr \<Longrightarrow> pops_Treiber moved_from os w = Some (replicate (length os) None, w)"
  by (induction os) (simp_all add: StackTreiber_pop_empty)

lemma pops_SingleThreaded_empty:
  "head w = nullptr \<Longrightarrow> pops_SingleThreaded k w = Some (replicate k None, w)"
  by (induction k) (simp_all add: StackSingleThreaded_pop_empty)

text \<open>
  C8. On an empty stack (\<open>head = nullptr\<close>) \<open>pop\<close> returns no value, as a normal
  result and not a fault, and leaves the state as it was, so the stack is still empty.
  For StackTreiber the result does not depend on \<open>sps\<close>: the loop body is not entered
  and no CAS is attempted, so there is nothing to retry. Repeating \<open>pop\<close> any number of
  times on an empty stack returns no value every time.
\<close>

theorem pop_on_empty_stack:
  "StackTreiber_pop sps moved_from (w\<lparr>head := nullptr\<rparr>) = Some (None, w\<lparr>head := nullptr\<rparr>)
   \<and> StackSingleThreaded_pop (w\<lparr>head := nullptr\<rparr>) = Some (None, w\<lparr>head := nullptr\<rparr>)
   \<and> pops_Treiber moved_from os (w\<lparr>head := nullptr\<rparr>)
         = Some (replicate (length os) None, w\<lparr>head := nullptr\<rparr>)
   \<and> pops_SingleThreaded k (w\<lparr>head := nullptr\<rparr>)
         = Some (replicate k None, w\<lparr>head := nullptr\<rparr>)"
  by (simp add: StackTreiber_pop_empty StackSingleThreaded_pop_empty pops_Treiber_empty
      pops_SingleThreaded_empty)

section \<open>Push and pop of the Treiber stack and the hazard-pointer manager\<close>

text \<open>
  C9. \<open>push\<close> of StackTreiber does not fault and leaves every hazard slot and every
  thread's retired list unchanged (and runs no scan). All it does is allocate a node
  holding the value, set its \<open>next\<close> to the \<open>head\<close> it read and make \<open>head\<close> point to
  it.
\<close>

theorem StackTreiber_push_frame:
  "\<exists>w'. StackTreiber_push sps v w = Some w'
     \<and> slots w' = slots w \<and> retired w' = retired w \<and> scans w' = scans w
     \<and> head w' = fresh_addr (heap w)
     \<and> heap w' = (fresh_addr (heap w), \<lparr>node_value = v, node_next = head w\<rparr>) # heap w"
  by (simp add: StackTreiber_push_eq)

text \<open>
  C1, as stated, fails: \<open>pop\<close> of StackTreiber does not hand the node it unlinks to
  \<open>retire\<close>. One push of 7 on the initial state allocates the node at address 1; the
  pop that follows returns 7, and afterwards address 1 is in no retired list, no scan
  has run and the slots are as they were.
\<close>

theorem StackTreiber_pop_retires_nothing:
  "StackTreiber_push [] (7::nat) (initial_world [])
     = Some ((initial_world [])
          \<lparr>head := 1, heap := [(1, \<lparr>node_value = 7, node_next = nullptr\<rparr>)]\<rparr>)
   \<and> StackTreiber_pop [] id ((initial_world [])
          \<lparr>head := 1, heap := [(1, \<lparr>node_value = 7::nat, node_next = nullptr\<rparr>)]\<rparr>)
     = Some (Some 7, (initial_world [])
          \<lparr>heap := [(1, \<lparr>node_value = 7, node_next = nullptr\<rparr>)]\<rparr>)
   \<and> 1 \<notin> set (retired ((initial_world [])
          \<lparr>heap := [(1, \<lparr>node_value = 7::nat, node_next = nullptr\<rparr>)]\<rparr>) 0)
   \<and> retired ((initial_world [])
          \<lparr>heap := [(1, \<lparr>node_value = 7::nat, node_next = nullptr\<rparr>)]\<rparr>)
       = retired (initial_world ([] :: nat heap))
   \<and> scans ((initial_world [])
          \<lparr>heap := [(1, \<lparr>node_value = 7::nat, node_next = nullptr\<rparr>)]\<rparr>) = []
   \<and> ptr (slots ((initial_world [])
          \<lparr>heap := [(1, \<lparr>node_value = 7::nat, node_next = nullptr\<rparr>)]\<rparr>) 0) = nullptr"
  by (simp add: StackTreiber_push_def new_Node_def set_next_def fresh_addr_def push_loop.simps
      StackTreiber_pop_def pop_loop.simps compare_exchange_weak_def initial_world_def)

text \<open>
  C1, amended. When \<open>head\<close> points to an allocated node, \<open>pop\<close> of StackTreiber
  unlinks that node (\<open>head\<close> becomes its \<open>next\<close>) and returns its value, whatever CAS
  attempts fail spuriously. It uses no hazard pointer and does not retire the node:
  the slots, every retired list and the scans are unchanged, and the same addresses are
  allocated afterwards, the unlinked node among them.
\<close>

theorem StackTreiber_pop_unlinks_only:
  assumes "head w \<noteq> nullptr" and "map_of (heap w) (head w) = Some nd"
  shows "\<exists>w'. StackTreiber_pop sps moved_from w = Some (Some (node_value nd), w')
     \<and> head w' = node_next nd
     \<and> slots w' = slots w \<and> retired w' = retired w \<and> scans w' = scans w
     \<and> map fst (heap w') = map fst (heap w)"
proof -
  have "(head w, nd) \<in> set (heap w)" using assms(2) by (rule map_of_SomeD)
  then have "head w \<in> fst ` set (heap w)" by force
  then show ?thesis
    using assms by (simp add: StackTreiber_pop_def pop_loop_at_head update_keys)
qed

theorem StackTreiber_pop_unlinks_only_witness:
  "head ((initial_world []) \<lparr>head := 1, heap := [(1, \<lparr>node_value = 7::nat, node_next = nullptr\<rparr>)]\<rparr>)
     \<noteq> nullptr
   \<and> map_of (heap ((initial_world [])
         \<lparr>head := 1, heap := [(1, \<lparr>node_value = 7::nat, node_next = nullptr\<rparr>)]\<rparr>)) 1
       = Some \<lparr>node_value = 7, node_next = nullptr\<rparr>
   \<and> (\<exists>w'. StackTreiber_pop [True, False] id ((initial_world [])
         \<lparr>head := 1, heap := [(1, \<lparr>node_value = 7::nat, node_next = nullptr\<rparr>)]\<rparr>)
        = Some (Some 7, w')
       \<and> head w' = nullptr
       \<and> slots w' = slots (initial_world ([] :: nat heap))
       \<and> retired w' = retired (initial_world ([] :: nat heap))
       \<and> scans w' = []
       \<and> map fst (heap w') = [1])"
  using StackTreiber_pop_unlinks_only
    [of "(initial_world [])
           \<lparr>head := 1, heap := [(1, \<lparr>node_value = 7::nat, node_next = nullptr\<rparr>)]\<rparr>"
        "\<lparr>node_value = 7, node_next = nullptr\<rparr>" "[True, False]" id]
  by (simp add: initial_world_def)

section \<open>Push then pop on the single-threaded stack\<close>

text \<open>
  C10. For every state \<open>s\<close> and every value \<open>v\<close>, \<open>push(v)\<close> on StackSingleThreaded
  followed by \<open>pop()\<close> returns \<open>v\<close> and gives back the state \<open>s\<close> itself: the same
  \<open>head\<close> and the same heap, so the stack holds exactly the nodes, and the values, it
  held in \<open>s\<close>.
\<close>

theorem StackSingleThreaded_push_pop:
  "Option.bind (StackSingleThreaded_push v s) StackSingleThreaded_pop = Some (Some v, s)"
  by (simp add: StackSingleThreaded_push_eq StackSingleThreaded_pop_def delete_Node_def
      fresh_addr_not_null fresh_addr_notin)

section \<open>The hazard-pointer manager\<close>

lemma reclaim_eq:
  "reclaim t deleter w = w\<lparr>scans := scans w @ [(t, retired w t, hazards_snapshot (slots w))]\<rparr>"
  by (simp add: reclaim_def)

lemma hazards_snapshot_fold:
  "fold (\<lambda>i hazards. if ptr (sl i) = nullptr then hazards else insert (ptr (sl i)) hazards) is H
     = H \<union> {ptr (sl i) | i. i \<in> set is \<and> ptr (sl i) \<noteq> nullptr}"
  by (induction "is" arbitrary: H) auto

lemma hazards_snapshot_eq:
  "hazards_snapshot sl = {ptr (sl i) | i. i < MAX_HAZARD_POINTERS \<and> ptr (sl i) \<noteq> nullptr}"
  by (simp add: hazards_snapshot_def hazards_snapshot_fold)

text \<open>Whatever the deleter, \<open>reclaim\<close> frees nothing and keeps every retired list.\<close>

lemma reclaim_keeps_memory:
  "heap (reclaim t deleter w) = heap w \<and> retired (reclaim t deleter w) = retired w"
  by (simp add: reclaim_eq)

text \<open>
  C2. The snapshot half of the claim holds: \<open>reclaim\<close> reads every slot's pointer into a
  set. The partition half does not: at the input below thread 0 has retired pointer 1, no
  slot holds a pointer, so 1 is absent from the snapshot and the claim has it freed via
  the deleter; the code keeps it in the retired list and never invokes the deleter.
\<close>

theorem reclaim_frees_nothing:
  "hazards_snapshot (slots ((initial_world []) \<lparr>retired := (retired (initial_world [])) (0 := [1])\<rparr>)) = {}
   \<and> retired (reclaim 0 recording_deleter
        ((initial_world []) \<lparr>retired := (retired (initial_world [])) (0 := [1])\<rparr>)) 0 = [1]
   \<and> heap (reclaim 0 recording_deleter
        ((initial_world []) \<lparr>retired := (retired (initial_world [])) (0 := [1])\<rparr>)) = []"
  by (simp add: reclaim_eq hazards_snapshot_eq) (simp add: initial_world_def)

text \<open>
  C3. A scan never frees a protected node. With the recording deleter, the pointers the
  deleter is invoked on during a call of \<open>reclaim\<close> are the entries the call adds to the
  record; none of them is in the snapshot of hazard pointers that the scan takes. (In
  the source this holds because \<open>reclaim\<close> does not invoke the deleter at all.)
\<close>

theorem reclaim_never_frees_protected:
  "set (drop (length (heap w)) (heap (reclaim t recording_deleter w)))
     \<inter> hazards_snapshot (slots w) = {}"
  by (simp add: reclaim_eq)

text \<open>
  C4. On a fresh manager (all slots unused) a thread's first call of
  \<open>acquire_slot_index\<close> marks no slot used and yields no index: the state is unchanged.
\<close>

theorem acquire_slot_index_does_nothing:
  "acquire_slot_index t (initial_world m) = (None, initial_world m)
   \<and> used (slots (snd (acquire_slot_index t (initial_world m))) 0) = False"
  by (simp add: acquire_slot_index_def initial_world_def)

text \<open>
  C5. \<open>retire\<close>, called by thread \<open>t\<close>, appends the pointer to the retired list of \<open>t\<close>
  and leaves every other thread's list as it was. A scan runs during the call if and only
  if the list, with the new entry, has reached \<open>RECLAIM_THRESHOLD = 64\<close> entries; that
  scan is given the list of \<open>t\<close>. Below the threshold no scan runs. The memory, the slots
  and \<open>head\<close> are the same after the call.
\<close>

theorem retire_appends_and_scans_at_threshold:
  "retired (retire t p deleter w) = (retired w)(t := retired w t @ [p])
   \<and> (scans (retire t p deleter w) \<noteq> scans w) = (64 \<le> length (retired w t @ [p]))
   \<and> scans (retire t p deleter w) =
       (if 64 \<le> length (retired w t @ [p])
        then scans w @ [(t, retired w t @ [p], hazards_snapshot (slots w))]
        else scans w)
   \<and> heap (retire t p deleter w) = heap w
   \<and> slots (retire t p deleter w) = slots w
   \<and> head (retire t p deleter w) = head w
   \<and> RECLAIM_THRESHOLD = 64"
  by (simp add: retire_def reclaim_eq RECLAIM_THRESHOLD_def)

end
